theory Spec2Isabelle
  imports Main
begin

section \<open>The KenKen solver: data model\<close>

text \<open>
  A shallow embedding of \<^verbatim>\<open>puzzle.py\<close>, \<^verbatim>\<open>solver.py\<close> and the helpers of
  \<^verbatim>\<open>utils.py\<close> they call.

  \<^item> A \<^verbatim>\<open>Cell\<close> is identified by its coordinate pair (\<^verbatim>\<open>Cell.tuple\<close>, which
    \<^verbatim>\<open>__eq__\<close> and \<^verbatim>\<open>__hash__\<close> use); there is one cell object per
    coordinate, as \<^verbatim>\<open>parse_string\<close> builds them.
  \<^item> The mutable attributes of the cells (\<^verbatim>\<open>value\<close>, \<^verbatim>\<open>domain\<close>) live in a
    store, the record \<open>state\<close>, together with the two counters of the \<^verbatim>\<open>stats\<close>
    dictionary of \<^verbatim>\<open>backtrack_solve\<close>.
  \<^item> A constraint is a value of a datatype with one constructor per subclass of
    \<^verbatim>\<open>Constraint\<close>; it holds the coordinates of its cells and, for a
    \<^verbatim>\<open>ValueConstraint\<close>, the target \<^verbatim>\<open>value\<close>.
  \<^item> Python integers are unbounded: \<open>int\<close>. Python's \<^verbatim>\<open>//\<close> and \<^verbatim>\<open>%\<close>
    round towards minus infinity, as \<open>div\<close> and \<open>mod\<close> on \<open>int\<close> do.
  \<^item> A Python set of integers is an \<open>int set\<close>. The order in which the interpreter
    enumerates a set is not fixed by the language, so it is a parameter \<open>en\<close> of every
    function that iterates over a set.
  \<^item> The exceptions the code can raise on its way (\<^verbatim>\<open>IndexError\<close> from
    \<^verbatim>\<open>values[0]\<close>, \<^verbatim>\<open>values[1]\<close>; \<^verbatim>\<open>ZeroDivisionError\<close> from
    \<^verbatim>\<open>//\<close> and \<^verbatim>\<open>%\<close>) are values of the type \<open>error\<close>.
\<close>

type_synonym cell = "int \<times> int"

datatype constraint =
    UniquenessConstraint "cell list"
  | AddConstraint "cell list" int
  | MulConstraint "cell list" int
  | SubConstraint "cell list" int
  | DivConstraint "cell list" int
  | ConConstraint "cell list" int

record puzzle =
  width :: int
  cells :: "cell list"
  constraints :: "constraint list"

record state =
  cell_value :: "cell \<Rightarrow> int option"
  cell_domain :: "cell \<Rightarrow> int set"
  backtracks :: int
  recursive_calls :: int

datatype error = IndexError | ZeroDivisionError

type_synonym enum = "int set \<Rightarrow> int list"

text \<open>\<^verbatim>\<open>Constraint.cells\<close>.\<close>

fun constraint_cells :: "constraint \<Rightarrow> cell list" where
  "constraint_cells (UniquenessConstraint cs) = cs"
| "constraint_cells (AddConstraint cs t) = cs"
| "constraint_cells (MulConstraint cs t) = cs"
| "constraint_cells (SubConstraint cs t) = cs"
| "constraint_cells (DivConstraint cs t) = cs"
| "constraint_cells (ConConstraint cs t) = cs"

text \<open>\<^verbatim>\<open>Puzzle.domain\<close>: \<^verbatim>\<open>set(range(1, self.width + 1))\<close>.\<close>

definition puzzle_domain :: "puzzle \<Rightarrow> int set" where
  "puzzle_domain p = {1..width p}"

text \<open>\<^verbatim>\<open>Puzzle.unassigned\<close>: the cells of the puzzle whose value is \<^verbatim>\<open>None\<close>, in
  the order of \<^verbatim>\<open>puzzle.cells\<close>.\<close>

definition unassigned :: "puzzle \<Rightarrow> state \<Rightarrow> cell list" where
  "unassigned p st = filter (\<lambda>c. cell_value st c = None) (cells p)"

text \<open>\<^verbatim>\<open>Constraint.values\<close>, \<^verbatim>\<open>Constraint.unassigned\<close>,
  \<^verbatim>\<open>Constraint.assigned\<close>; \<open>assigned_values\<close> is the generator
  \<^verbatim>\<open>(cell.value for cell in constraint.assigned)\<close>.\<close>

definition constraint_values :: "constraint \<Rightarrow> state \<Rightarrow> int option list" where
  "constraint_values k st = map (cell_value st) (constraint_cells k)"

definition constraint_unassigned :: "constraint \<Rightarrow> state \<Rightarrow> cell list" where
  "constraint_unassigned k st = filter (\<lambda>c. cell_value st c = None) (constraint_cells k)"

definition assigned :: "constraint \<Rightarrow> state \<Rightarrow> cell list" where
  "assigned k st = filter (\<lambda>c. cell_value st c \<noteq> None) (constraint_cells k)"

definition assigned_values :: "constraint \<Rightarrow> state \<Rightarrow> int list" where
  "assigned_values k st = map (\<lambda>c. the (cell_value st c)) (assigned k st)"

section \<open>Evaluating a constraint\<close>

text \<open>
  \<^verbatim>\<open>evaluate(values)\<close> of the six subclasses. \<^verbatim>\<open>values[0]\<close> and
  \<^verbatim>\<open>values[1]\<close> raise \<^verbatim>\<open>IndexError\<close> on a list that is too short.
  \<^verbatim>\<open>product\<close> of \<^verbatim>\<open>utils.py\<close> is a fold of \<^verbatim>\<open>*\<close> from 1.
\<close>

definition product :: "int list \<Rightarrow> int" where
  "product nums = foldl (\<lambda>x y. x * y) 1 nums"

fun evaluate :: "constraint \<Rightarrow> int list \<Rightarrow> error + bool" where
  "evaluate (UniquenessConstraint cs) vs = Inr (length vs = card (set vs))"
| "evaluate (AddConstraint cs t) vs = Inr (sum_list vs = t)"
| "evaluate (MulConstraint cs t) vs = Inr (product vs = t)"
| "evaluate (SubConstraint cs t) vs =
     (if length vs < 2 then Inl IndexError else Inr (\<bar>vs ! 0 - vs ! 1\<bar> = t))"
| "evaluate (DivConstraint cs t) vs =
     (if length vs < 2 then Inl IndexError
      else Inr (vs ! 0 = vs ! 1 * t \<or> vs ! 1 = vs ! 0 * t))"
| "evaluate (ConConstraint cs t) vs =
     (if vs = [] then Inl IndexError else Inr (vs ! 0 = t))"

text \<open>\<^verbatim>\<open>Constraint.solved\<close>: \<^verbatim>\<open>None not in values and self.evaluate(values)\<close>;
  \<^verbatim>\<open>Constraint.consistent\<close>: \<^verbatim>\<open>None in self.values or self.solved\<close>.\<close>

definition solved :: "constraint \<Rightarrow> state \<Rightarrow> error + bool" where
  "solved k st =
     (if None \<in> set (constraint_values k st) then Inr False
      else evaluate k (map the (constraint_values k st)))"

definition consistent :: "constraint \<Rightarrow> state \<Rightarrow> error + bool" where
  "consistent k st =
     (if None \<in> set (constraint_values k st) then Inr True else solved k st)"

text \<open>\<^verbatim>\<open>all(...)\<close> over a generator stops at the first false element; an
  exception raised before that point propagates.\<close>

fun all_of :: "('a \<Rightarrow> error + bool) \<Rightarrow> 'a list \<Rightarrow> error + bool" where
  "all_of f [] = Inr True"
| "all_of f (x # xs) =
     (case f x of
        Inl e \<Rightarrow> Inl e
      | Inr b \<Rightarrow> if b then all_of f xs else Inr False)"

text \<open>\<^verbatim>\<open>Puzzle.solved\<close> and \<^verbatim>\<open>Puzzle.consistent\<close>.\<close>

definition puzzle_solved :: "puzzle \<Rightarrow> state \<Rightarrow> error + bool" where
  "puzzle_solved p st = all_of (\<lambda>k. solved k st) (constraints p)"

definition puzzle_consistent :: "puzzle \<Rightarrow> state \<Rightarrow> error + bool" where
  "puzzle_consistent p st = all_of (\<lambda>k. consistent k st) (constraints p)"

section \<open>The reduction strategies\<close>

text \<open>
  \<^verbatim>\<open>reduce_unique\<close>: \<^verbatim>\<open>candidates.symmetric_difference(values)\<close>, where
  \<^verbatim>\<open>values\<close> are the values of the assigned cells of the constraint. The method
  turns its argument into a set first.
\<close>

definition symmetric_difference :: "int set \<Rightarrow> int set \<Rightarrow> int set" where
  "symmetric_difference a b = (a - b) \<union> (b - a)"

definition reduce_unique :: "constraint \<Rightarrow> state \<Rightarrow> int set \<Rightarrow> int set" where
  "reduce_unique k st candidates =
     symmetric_difference candidates (set (assigned_values k st))"

text \<open>\<^verbatim>\<open>AddConstraint.total\<close>, \<^verbatim>\<open>AddConstraint.remainder\<close> and
  \<^verbatim>\<open>reduce_add\<close>.\<close>

definition add_total :: "constraint \<Rightarrow> state \<Rightarrow> int" where
  "add_total k st = sum_list (assigned_values k st)"

definition add_remainder :: "constraint \<Rightarrow> int \<Rightarrow> state \<Rightarrow> int" where
  "add_remainder k t st = t - add_total k st"

definition reduce_add :: "constraint \<Rightarrow> int \<Rightarrow> state \<Rightarrow> int set \<Rightarrow> int set" where
  "reduce_add k t st candidates =
     (let remainder = add_remainder k t st in
      if length (constraint_unassigned k st) = 1
      then (if remainder \<in> candidates then {remainder} else {})
      else {candidate \<in> candidates. remainder - candidate > 0})"

text \<open>\<^verbatim>\<open>MulConstraint.total\<close>, \<^verbatim>\<open>MulConstraint.remainder\<close>
  (\<^verbatim>\<open>self.value // self.total\<close>, which raises when the total is 0) and
  \<^verbatim>\<open>reduce_mul\<close> (\<^verbatim>\<open>remainder % candidate\<close> raises on the candidate 0; the
  set comprehension visits every candidate).\<close>

definition mul_total :: "constraint \<Rightarrow> state \<Rightarrow> int" where
  "mul_total k st = product (assigned_values k st)"

definition mul_remainder :: "constraint \<Rightarrow> int \<Rightarrow> state \<Rightarrow> error + int" where
  "mul_remainder k t st =
     (if mul_total k st = 0 then Inl ZeroDivisionError else Inr (t div mul_total k st))"

definition reduce_mul :: "constraint \<Rightarrow> int \<Rightarrow> state \<Rightarrow> int set \<Rightarrow> error + int set" where
  "reduce_mul k t st candidates =
     (case mul_remainder k t st of
        Inl e \<Rightarrow> Inl e
      | Inr remainder \<Rightarrow>
          if length (constraint_unassigned k st) = 1
          then Inr (if remainder \<in> candidates then {remainder} else {})
          else if 0 \<in> candidates then Inl ZeroDivisionError
          else Inr {candidate \<in> candidates. remainder mod candidate = 0})"

text \<open>
  \<^verbatim>\<open>pairs\<close> of \<^verbatim>\<open>utils.py\<close>: \<^verbatim>\<open>filter(predicate, itertools.combinations(nums, 2))\<close>,
  the pairs of two positions of the enumeration, the earlier one first.
  \<^verbatim>\<open>flatten\<close> yields the members of every pair (read for an interpreter in which
  \<^verbatim>\<open>collections.Iterable\<close> exists, that is Python up to 3.9).
\<close>

fun combinations2 :: "'a list \<Rightarrow> ('a \<times> 'a) list" where
  "combinations2 [] = []"
| "combinations2 (x # xs) = map (Pair x) xs @ combinations2 xs"

definition pairs :: "'a list \<Rightarrow> ('a \<times> 'a \<Rightarrow> bool) \<Rightarrow> ('a \<times> 'a) list" where
  "pairs nums predicate = filter predicate (combinations2 nums)"

definition flatten :: "('a \<times> 'a) list \<Rightarrow> 'a list" where
  "flatten ps = concat (map (\<lambda>(a, b). [a, b]) ps)"

text \<open>\<^verbatim>\<open>reduce_sub\<close> and \<^verbatim>\<open>reduce_div\<close> have the same body: the predicate is
  \<^verbatim>\<open>constraint.evaluate(p)\<close> on the pair.\<close>

definition reduce_sub :: "enum \<Rightarrow> constraint \<Rightarrow> int set \<Rightarrow> int set" where
  "reduce_sub en k candidates =
     set (flatten (pairs (en candidates) (\<lambda>(a, b). evaluate k [a, b] = Inr True)))"

definition reduce_div :: "enum \<Rightarrow> constraint \<Rightarrow> int set \<Rightarrow> int set" where
  "reduce_div en k candidates =
     set (flatten (pairs (en candidates) (\<lambda>(a, b). evaluate k [a, b] = Inr True)))"

text \<open>\<^verbatim>\<open>reduce_con\<close>.\<close>

definition reduce_con :: "int \<Rightarrow> int set \<Rightarrow> int set" where
  "reduce_con t candidates = (if t \<in> candidates then {t} else {})"

text \<open>
  \<^verbatim>\<open>constraint.reduce(candidates)\<close>: every subclass hands over to its method of the
  \<^verbatim>\<open>ReductionStrategy\<close> that \<^verbatim>\<open>initialize\<close> bound to every constraint of the
  puzzle. The strategy object has no state, so the binding is not part of the store.
\<close>

fun reduce :: "enum \<Rightarrow> constraint \<Rightarrow> state \<Rightarrow> int set \<Rightarrow> error + int set" where
  "reduce en (UniquenessConstraint cs) st candidates =
     Inr (reduce_unique (UniquenessConstraint cs) st candidates)"
| "reduce en (AddConstraint cs t) st candidates =
     Inr (reduce_add (AddConstraint cs t) t st candidates)"
| "reduce en (MulConstraint cs t) st candidates =
     reduce_mul (MulConstraint cs t) t st candidates"
| "reduce en (SubConstraint cs t) st candidates =
     Inr (reduce_sub en (SubConstraint cs t) candidates)"
| "reduce en (DivConstraint cs t) st candidates =
     Inr (reduce_div en (DivConstraint cs t) candidates)"
| "reduce en (ConConstraint cs t) st candidates = Inr (reduce_con t candidates)"

section \<open>The candidates of a cell\<close>

text \<open>
  \<^verbatim>\<open>cell.constraints\<close>: \<^verbatim>\<open>Constraint.__init__\<close> appends the new constraint to
  the list of each of its cells, once per occurrence. The constraints of the puzzle
  are the constraints that were built over its cells, in the order of construction.
\<close>

definition cell_constraints :: "puzzle \<Rightarrow> cell \<Rightarrow> constraint list" where
  "cell_constraints p c =
     concat (map (\<lambda>k. map (\<lambda>_. k) (filter (\<lambda>x. x = c) (constraint_cells k))) (constraints p))"

text \<open>\<^verbatim>\<open>Cell.candidates\<close>: the loop
  \<^verbatim>\<open>candidates = candidates & set(constraint.reduce(candidates))\<close> from
  \<^verbatim>\<open>self.domain\<close>.\<close>

fun candidates_loop :: "enum \<Rightarrow> state \<Rightarrow> constraint list \<Rightarrow> int set \<Rightarrow> error + int set" where
  "candidates_loop en st [] candidates = Inr candidates"
| "candidates_loop en st (k # ks) candidates =
     (case reduce en k st candidates of
        Inl e \<Rightarrow> Inl e
      | Inr r \<Rightarrow> candidates_loop en st ks (candidates \<inter> r))"

definition candidates :: "enum \<Rightarrow> puzzle \<Rightarrow> state \<Rightarrow> cell \<Rightarrow> error + int set" where
  "candidates en p st c = candidates_loop en st (cell_constraints p c) (cell_domain st c)"

section \<open>The backtracking search\<close>

text \<open>\<^verbatim>\<open>initialize\<close>: \<^verbatim>\<open>cell.domain = puzzle.domain\<close> for every cell of the
  puzzle.\<close>

definition initialize :: "puzzle \<Rightarrow> state \<Rightarrow> state" where
  "initialize p st =
     st\<lparr>cell_domain := (\<lambda>c. if c \<in> set (cells p) then puzzle_domain p else cell_domain st c)\<rparr>"

text \<open>
  \<^verbatim>\<open>sorted(puzzle.unassigned, key=lambda c: len(c.candidates))\<close>: the key of every
  cell is computed first, in the order of the list (the first exception propagates);
  the sort is stable.
\<close>

fun candidate_counts :: "enum \<Rightarrow> puzzle \<Rightarrow> state \<Rightarrow> cell list \<Rightarrow> error + (cell \<times> nat) list" where
  "candidate_counts en p st [] = Inr []"
| "candidate_counts en p st (c # cs) =
     (case candidates en p st c of
        Inl e \<Rightarrow> Inl e
      | Inr s \<Rightarrow>
          (case candidate_counts en p st cs of
             Inl e \<Rightarrow> Inl e
           | Inr keyed \<Rightarrow> Inr ((c, card s) # keyed)))"

definition solve_order :: "enum \<Rightarrow> puzzle \<Rightarrow> state \<Rightarrow> error + cell list" where
  "solve_order en p st =
     (case candidate_counts en p st (unassigned p st) of
        Inl e \<Rightarrow> Inl e
      | Inr keyed \<Rightarrow> Inr (map fst (sort_key snd keyed)))"

text \<open>
  The result of a call of \<^verbatim>\<open>solve\<close>: an exception, or the returned boolean with the
  store at return. \<open>None\<close> is a call that did not return within the given number of
  nested calls.
\<close>

type_synonym result = "(error + bool \<times> state) option"

text \<open>
  The inner loop \<^verbatim>\<open>for candidate in cell.candidates\<close> of \<^verbatim>\<open>solve\<close>, over the
  enumeration of the candidates that remain to be tried, followed by the two
  statements after it (\<^verbatim>\<open>stats['backtracks'] += 1; return False\<close>). The argument
  \<open>rec\<close> is the recursive call \<^verbatim>\<open>solve()\<close>.
\<close>

fun try_candidates :: "(state \<Rightarrow> result) \<Rightarrow> puzzle \<Rightarrow> cell \<Rightarrow> int list \<Rightarrow> state \<Rightarrow> result" where
  "try_candidates rec p c [] st = Some (Inr (False, st\<lparr>backtracks := backtracks st + 1\<rparr>))"
| "try_candidates rec p c (v # vs) st =
     (let st1 = st\<lparr>cell_value := (cell_value st)(c := Some v)\<rparr> in
      case puzzle_consistent p st1 of
        Inl e \<Rightarrow> Some (Inl e)
      | Inr False \<Rightarrow>
          try_candidates rec p c vs (st1\<lparr>cell_value := (cell_value st1)(c := None)\<rparr>)
      | Inr True \<Rightarrow>
          (case rec (st1\<lparr>recursive_calls := recursive_calls st1 + 1\<rparr>) of
             None \<Rightarrow> None
           | Some (Inl e) \<Rightarrow> Some (Inl e)
           | Some (Inr (True, st2)) \<Rightarrow> Some (Inr (True, st2))
           | Some (Inr (False, st2)) \<Rightarrow>
               try_candidates rec p c vs (st2\<lparr>cell_value := (cell_value st2)(c := None)\<rparr>)))"

text \<open>
  \<^verbatim>\<open>solve\<close>. The outer loop \<^verbatim>\<open>for cell in solve_order\<close> returns at the end of its
  first iteration, so only the head of the sorted list is used; with no unassigned cell
  the function returns \<^verbatim>\<open>puzzle.solved\<close>. The first argument bounds the depth of the
  recursion.
\<close>

fun solve :: "enum \<Rightarrow> nat \<Rightarrow> puzzle \<Rightarrow> state \<Rightarrow> result" where
  "solve en 0 p st = None"
| "solve en (Suc n) p st =
     (case solve_order en p st of
        Inl e \<Rightarrow> Some (Inl e)
      | Inr [] \<Rightarrow>
          (case puzzle_solved p st of
             Inl e \<Rightarrow> Some (Inl e)
           | Inr b \<Rightarrow> Some (Inr (b, st)))
      | Inr (c # rest) \<Rightarrow>
          (case candidates en p st c of
             Inl e \<Rightarrow> Some (Inl e)
           | Inr s \<Rightarrow> try_candidates (solve en n p) p c (en s) st))"

text \<open>
  \<^verbatim>\<open>backtrack_solve\<close>: fresh counters, \<^verbatim>\<open>initialize()\<close>, then \<^verbatim>\<open>solve()\<close>.
  The depth allowed is the number of cells of the puzzle plus one, which
  \<open>solve_returns\<close> below shows to be enough. The decorator \<^verbatim>\<open>with_timing\<close> prints
  the running time and passes the result on; it is left out.
\<close>

definition backtrack_solve :: "enum \<Rightarrow> puzzle \<Rightarrow> state \<Rightarrow> result" where
  "backtrack_solve en p st =
     solve en (Suc (length (cells p))) p
       (initialize p (st\<lparr>backtracks := 0, recursive_calls := 0\<rparr>))"

text \<open>
  The value \<^verbatim>\<open>(solve(), stats)\<close> that \<^verbatim>\<open>backtrack_solve\<close> returns: the boolean
  with the counters \<^verbatim>\<open>stats['backtracks']\<close> and \<^verbatim>\<open>stats['recursive_calls']\<close>.
\<close>

definition returned :: "result \<Rightarrow> (error + bool \<times> int \<times> int) option" where
  "returned r =
     (case r of
        None \<Rightarrow> None
      | Some (Inl e) \<Rightarrow> Some (Inl e)
      | Some (Inr (ok, st)) \<Rightarrow> Some (Inr (ok, backtracks st, recursive_calls st)))"

text \<open>
  \<^verbatim>\<open>Cell.candidates\<close> as a command on the store. The body of the property and the
  reductions it calls assign no attribute and call no in-place method of a set
  (\<^verbatim>\<open>&\<close>, \<^verbatim>\<open>symmetric_difference\<close>, \<^verbatim>\<open>set(...)\<close> and the comprehensions
  build new sets), so the store comes back as it was.
\<close>

definition eval_candidates :: "enum \<Rightarrow> puzzle \<Rightarrow> cell \<Rightarrow> state \<Rightarrow> (error + int set) \<times> state" where
  "eval_candidates en p c st = (candidates en p st c, st)"

text \<open>What is known of the order of enumeration: every element of a finite set comes
  once.\<close>

definition enumerates :: "enum \<Rightarrow> bool" where
  "enumerates en \<longleftrightarrow> (\<forall>s. finite s \<longrightarrow> set (en s) = s \<and> distinct (en s))"

section \<open>Example puzzles\<close>

text \<open>A store as the constructors leave it: every \<^verbatim>\<open>Cell.value\<close> is \<^verbatim>\<open>None\<close>,
  \<^verbatim>\<open>Cell.domain\<close> is the empty set of the class.\<close>

definition fresh :: state where
  "fresh = \<lparr>cell_value = (\<lambda>c. None), cell_domain = (\<lambda>c. {}), backtracks = 0,
     recursive_calls = 0\<rparr>"

text \<open>The 1 by 1 puzzle with one \<^verbatim>\<open>ConConstraint\<close> of target 1; the row and the
  column constraint follow the cages, as in \<^verbatim>\<open>parse_string\<close>.\<close>

definition puzzle_1x1 :: puzzle where
  "puzzle_1x1 = \<lparr>width = 1, cells = [(0, 0)],
     constraints = [ConConstraint [(0, 0)] 1,
       UniquenessConstraint [(0, 0)], UniquenessConstraint [(0, 0)]]\<rparr>"

text \<open>A 2 by 2 puzzle with no solution: two \<^verbatim>\<open>ConConstraint\<close> cages of target 1 in
  row 0.\<close>

definition puzzle_unsat :: puzzle where
  "puzzle_unsat = \<lparr>width = 2, cells = [(0, 0), (0, 1), (1, 0), (1, 1)],
     constraints = [ConConstraint [(0, 0)] 1, ConConstraint [(0, 1)] 1,
       AddConstraint [(1, 0), (1, 1)] 3,
       UniquenessConstraint [(0, 0), (0, 1)], UniquenessConstraint [(0, 0), (1, 0)],
       UniquenessConstraint [(1, 0), (1, 1)], UniquenessConstraint [(0, 1), (1, 1)]]\<rparr>"

text \<open>The 2 by 2 puzzle of the specification: 3+ on row 0, 2* on row 1.\<close>

definition puzzle_2x2 :: puzzle where
  "puzzle_2x2 = \<lparr>width = 2, cells = [(0, 0), (0, 1), (1, 0), (1, 1)],
     constraints = [AddConstraint [(0, 0), (0, 1)] 3, MulConstraint [(1, 0), (1, 1)] 2,
       UniquenessConstraint [(0, 0), (0, 1)], UniquenessConstraint [(0, 0), (1, 0)],
       UniquenessConstraint [(1, 0), (1, 1)], UniquenessConstraint [(0, 1), (1, 1)]]\<rparr>"

text \<open>The store of \<open>puzzle_2x2\<close> after \<^verbatim>\<open>initialize\<close> in which the cell (0, 1) holds 2.\<close>

definition state_01 :: state where
  "state_01 = (initialize puzzle_2x2 fresh)\<lparr>cell_value := (cell_value fresh)((0, 1) := Some 2)\<rparr>"

section \<open>Basic facts\<close>

lemma candidates_loop_subset:
  "candidates_loop en st ks s = Inr r \<Longrightarrow> r \<subseteq> s"
proof (induction ks arbitrary: s)
  case Nil
  then show ?case by simp
next
  case (Cons k ks)
  then show ?case by (auto split: sum.splits)
qed

lemma initialize_domain:
  "c \<in> set (cells p) \<Longrightarrow> cell_domain (initialize p st) c = {1..width p}"
  by (simp add: initialize_def puzzle_domain_def)

lemma reduce_cong:
  assumes "\<forall>x \<in> set (constraint_cells k). cell_value st' x = cell_value st x"
  shows "reduce en k st' s = reduce en k st s"
proof -
  have f1: "\<And>P. filter (\<lambda>c. P (cell_value st' c)) (constraint_cells k) = filter (\<lambda>c. P (cell_value st c)) (constraint_cells k)"
    using assms by (auto intro: filter_cong)
  have a: "assigned k st' = assigned k st"
    using f1 [of "\<lambda>v. v \<noteq> None"] by (simp add: assigned_def)
  have u: "constraint_unassigned k st' = constraint_unassigned k st"
    using f1 [of "\<lambda>v. v = None"] by (simp add: constraint_unassigned_def)
  have "set (assigned k st) \<subseteq> set (constraint_cells k)"
    by (auto simp: assigned_def)
  with assms have v: "assigned_values k st' = assigned_values k st"
    by (auto simp: assigned_values_def a)
  show ?thesis
    using u v
    by (cases k)
      (simp_all add: reduce_unique_def reduce_add_def reduce_mul_def add_remainder_def
        add_total_def mul_remainder_def mul_total_def)
qed

lemma candidates_loop_cong:
  assumes "\<forall>k \<in> set ks. \<forall>x \<in> set (constraint_cells k). cell_value st' x = cell_value st x"
  shows "candidates_loop en st' ks s = candidates_loop en st ks s"
  using assms
proof (induction ks arbitrary: s)
  case Nil
  then show ?case by simp
next
  case (Cons k ks)
  then have "reduce en k st' s = reduce en k st s"
    by (simp add: reduce_cong)
  with Cons show ?case by (simp split: sum.splits)
qed

lemma cell_constraints_set:
  "set (cell_constraints p c) = {k \<in> set (constraints p). c \<in> set (constraint_cells k)}"
  by (auto simp: cell_constraints_def)

lemma unassigned_cong:
  "cell_value st' = cell_value st \<Longrightarrow> unassigned p st' = unassigned p st"
  by (simp add: unassigned_def)

lemma unassigned_mem:
  "c \<in> set (unassigned p st) \<longleftrightarrow> c \<in> set (cells p) \<and> cell_value st c = None"
  by (auto simp: unassigned_def)

lemma filter_filter_less:
  assumes "\<And>y. Q y \<Longrightarrow> P y" and "x \<in> set xs" and "P x" and "\<not> Q x"
  shows "length (filter Q xs) < length (filter P xs)"
proof -
  have "filter Q xs = filter Q (filter P xs)"
    using assms(1) by (auto intro: filter_cong)
  moreover have "x \<in> set (filter P xs)"
    using assms(2,3) by simp
  ultimately show ?thesis
    using assms(4) length_filter_less [of x "filter P xs" Q] by simp
qed

lemma unassigned_assign_less:
  assumes "c \<in> set (unassigned p st)"
    and "cell_value st1 = (cell_value st)(c := Some v)"
  shows "length (unassigned p st1) < length (unassigned p st)"
  unfolding unassigned_def
proof (rule filter_filter_less [where x = c])
  fix y assume "cell_value st1 y = None"
  with assms(2) show "cell_value st y = None" by (simp split: if_splits)
next
  show "c \<in> set (cells p)" using assms(1) by (simp add: unassigned_mem)
  show "cell_value st c = None" using assms(1) by (simp add: unassigned_mem)
  show "cell_value st1 c \<noteq> None" using assms(2) by simp
qed

lemma candidate_counts_fst:
  "candidate_counts en p st cs = Inr keyed \<Longrightarrow> map fst keyed = cs"
  by (induction cs arbitrary: keyed) (auto split: sum.splits)

lemma candidate_counts_snd:
  "candidate_counts en p st cs = Inr keyed \<Longrightarrow> (c, n) \<in> set keyed \<Longrightarrow>
     \<exists>s. candidates en p st c = Inr s \<and> n = card s"
  by (induction cs arbitrary: keyed) (auto split: sum.splits)

lemma solve_order_set:
  assumes "solve_order en p st = Inr ord"
  shows "set ord = set (unassigned p st)" and "length ord = length (unassigned p st)"
proof -
  from assms obtain keyed where k: "candidate_counts en p st (unassigned p st) = Inr keyed"
    and o: "ord = map fst (sort_key snd keyed)"
    by (auto simp: solve_order_def split: sum.splits)
  from k have m: "map fst keyed = unassigned p st" by (rule candidate_counts_fst)
  have "set ord = fst ` set keyed" using o by simp
  also have "\<dots> = set (map fst keyed)" by simp
  finally show "set ord = set (unassigned p st)" using m by simp
  have "length ord = length keyed" using o by simp
  also have "\<dots> = length (map fst keyed)" by simp
  finally show "length ord = length (unassigned p st)" using m by simp
qed

lemma solve_order_head:
  assumes "solve_order en p st = Inr (c # rest)"
  shows "c \<in> set (cells p)" and "cell_value st c = None"
  using solve_order_set(1) [OF assms] unassigned_mem [of c p st] by auto

lemma constraint_values_cong:
  "cell_value st' = cell_value st \<Longrightarrow> constraint_values k st' = constraint_values k st"
  by (simp add: constraint_values_def)

lemma solved_cong:
  "cell_value st' = cell_value st \<Longrightarrow> solved k st' = solved k st"
  using constraint_values_cong [of st' st k] by (simp add: solved_def)

lemma consistent_cong:
  "cell_value st' = cell_value st \<Longrightarrow> consistent k st' = consistent k st"
  using constraint_values_cong [of st' st k] solved_cong [of st' st k] by (simp add: consistent_def)

lemma puzzle_solved_cong:
  "cell_value st' = cell_value st \<Longrightarrow> puzzle_solved p st' = puzzle_solved p st"
  using solved_cong [of st' st] by (simp add: puzzle_solved_def)

lemma puzzle_consistent_cong:
  "cell_value st' = cell_value st \<Longrightarrow> puzzle_consistent p st' = puzzle_consistent p st"
  using consistent_cong [of st' st] by (simp add: puzzle_consistent_def)

text \<open>What a run of the inner loop returns.\<close>

lemma try_candidates_cases:
  assumes rec_fail: "\<And>s s'. rec s = Some (Inr (False, s')) \<Longrightarrow>
            cell_value s' = cell_value s \<and> cell_domain s' = cell_domain s"
    and "cell_value st c = None"
    and "try_candidates rec p c vs st = Some (Inr (b, st'))"
  shows "if b
         then \<exists>v \<in> set vs. \<exists>s. cell_value s = (cell_value st)(c := Some v) \<and>
                cell_domain s = cell_domain st \<and> puzzle_consistent p s = Inr True \<and>
                rec s = Some (Inr (True, st'))
         else cell_value st' = cell_value st \<and> cell_domain st' = cell_domain st"
  using assms(2,3)
proof (induction vs arbitrary: st)
  case Nil
  then show ?case by auto
next
  case (Cons v vs)
  let ?st1 = "st\<lparr>cell_value := (cell_value st)(c := Some v)\<rparr>"
  let ?st1' = "?st1\<lparr>recursive_calls := recursive_calls ?st1 + 1\<rparr>"
  from Cons.prems(2) obtain ok where ok: "puzzle_consistent p ?st1 = Inr ok"
    by (cases "puzzle_consistent p ?st1") (auto simp: Let_def)
  show ?case
  proof (cases ok)
    case False
    let ?st2 = "?st1\<lparr>cell_value := (cell_value ?st1)(c := None)\<rparr>"
    from False ok Cons.prems(2) have run: "try_candidates rec p c vs ?st2 = Some (Inr (b, st'))"
      by (simp add: Let_def)
    have v2: "cell_value ?st2 = cell_value st" using Cons.prems(1) by auto
    have "cell_value ?st2 c = None" by simp
    from Cons.IH [OF this run] show ?thesis
      using v2 by (auto split: if_splits)
  next
    case True
    with ok Cons.prems(2) obtain r where r: "rec ?st1' = Some r"
      by (cases "rec ?st1'") (auto simp: Let_def)
    show ?thesis
    proof (cases r)
      case (Inl e)
      with True ok r Cons.prems(2) show ?thesis by (simp add: Let_def)
    next
      case (Inr bs)
      obtain b2 st2 where bs: "bs = (b2, st2)" by (cases bs)
      show ?thesis
      proof (cases b2)
        case True
        with \<open>ok\<close> ok r Inr bs Cons.prems(2) have "b" "st' = st2"
          by (simp_all add: Let_def)
        moreover have "puzzle_consistent p ?st1' = Inr True"
          using ok \<open>ok\<close> puzzle_consistent_cong [of ?st1' ?st1 p] by simp
        ultimately show ?thesis
          using r Inr bs True by (auto intro!: bexI [of _ v] exI [of _ ?st1'])
      next
        case False
        let ?st3 = "st2\<lparr>cell_value := (cell_value st2)(c := None)\<rparr>"
        from False \<open>ok\<close> ok r Inr bs Cons.prems(2)
        have run: "try_candidates rec p c vs ?st3 = Some (Inr (b, st'))"
          by (simp add: Let_def)
        from r Inr bs False have "cell_value st2 = cell_value ?st1' \<and> cell_domain st2 = cell_domain ?st1'"
          using rec_fail by simp
        then have v3: "cell_value ?st3 = cell_value st" "cell_domain ?st3 = cell_domain st"
          using Cons.prems(1) by auto
        have "cell_value ?st3 c = None" by simp
        from Cons.IH [OF this run] show ?thesis
          using v3 by (auto split: if_splits)
      qed
    qed
  qed
qed

lemma solve_cases:
  "solve en n p st = Some (Inr (b, st')) \<Longrightarrow>
     (if b then puzzle_solved p st' = Inr True \<and> cell_domain st' = cell_domain st
      else cell_value st' = cell_value st \<and> cell_domain st' = cell_domain st)"
proof (induction n arbitrary: st b st')
  case 0
  then show ?case by simp
next
  case (Suc n)
  from Suc.prems obtain ord where ord: "solve_order en p st = Inr ord"
    by (cases "solve_order en p st") auto
  show ?case
  proof (cases ord)
    case Nil
    with ord Suc.prems show ?thesis by (auto split: sum.splits)
  next
    case (Cons c rest)
    with ord Suc.prems obtain s where s: "candidates en p st c = Inr s"
      and run: "try_candidates (solve en n p) p c (en s) st = Some (Inr (b, st'))"
      by (cases "candidates en p st c") auto
    have none: "cell_value st c = None"
      using solve_order_head(2) ord Cons by blast
    have rec_fail: "\<And>s s'. solve en n p s = Some (Inr (False, s')) \<Longrightarrow>
            cell_value s' = cell_value s \<and> cell_domain s' = cell_domain s"
      using Suc.IH by fastforce
    from try_candidates_cases [where rec = "solve en n p", OF rec_fail none run]
    show ?thesis
      using Suc.IH by (fastforce split: if_splits)
  qed
qed

lemma try_candidates_mono:
  assumes "\<And>s r. rec s = Some r \<Longrightarrow> rec' s = Some r"
    and "try_candidates rec p c vs st = Some r"
  shows "try_candidates rec' p c vs st = Some r"
  using assms(2)
proof (induction vs arbitrary: st)
  case Nil
  then show ?case by simp
next
  case (Cons v vs)
  let ?st1 = "st\<lparr>cell_value := (cell_value st)(c := Some v)\<rparr>"
  let ?st1' = "?st1\<lparr>recursive_calls := recursive_calls ?st1 + 1\<rparr>"
  show ?case
  proof (cases "puzzle_consistent p ?st1")
    case (Inl e)
    with Cons.prems show ?thesis by (simp add: Let_def)
  next
    case (Inr ok)
    show ?thesis
    proof (cases ok)
      case False
      with Inr Cons.prems Cons.IH show ?thesis by (simp add: Let_def)
    next
      case True
      with Inr Cons.prems obtain r1 where r1: "rec ?st1' = Some r1"
        by (cases "rec ?st1'") (auto simp: Let_def)
      then have r1': "rec' ?st1' = Some r1" by (rule assms(1))
      from True Inr Cons.prems Cons.IH r1 r1' show ?thesis
        by (auto simp: Let_def split: sum.splits bool.splits prod.splits)
    qed
  qed
qed

lemma solve_fuel_Suc:
  "solve en n p st = Some r \<Longrightarrow> solve en (Suc n) p st = Some r"
proof (induction n arbitrary: st r)
  case 0
  then show ?case by simp
next
  case (Suc n)
  have step: "\<And>s r. solve en n p s = Some r \<Longrightarrow> solve en (Suc n) p s = Some r"
    by (rule Suc.IH)
  show ?case
  proof (cases "solve_order en p st")
    case (Inl e)
    with Suc.prems show ?thesis by simp
  next
    case (Inr ord)
    show ?thesis
    proof (cases ord)
      case Nil
      with Inr Suc.prems show ?thesis by simp
    next
      case (Cons c rest)
      show ?thesis
      proof (cases "candidates en p st c")
        case (Inl e)
        with Cons Inr Suc.prems show ?thesis by simp
      next
        case s: (Inr s)
        with Cons Inr Suc.prems
        have "try_candidates (solve en n p) p c (en s) st = Some r" by simp
        then have "try_candidates (solve en (Suc n) p) p c (en s) st = Some r"
          using step by (rule try_candidates_mono [rotated])
        with s Cons Inr show ?thesis by simp
      qed
    qed
  qed
qed

lemma solve_fuel_mono:
  "n \<le> m \<Longrightarrow> solve en n p st = Some r \<Longrightarrow> solve en m p st = Some r"
  by (induction m) (auto simp: le_Suc_eq dest: solve_fuel_Suc simp del: solve.simps)

lemma try_candidates_returns:
  assumes rec_total: "\<And>s. length (unassigned p s) < m \<Longrightarrow> \<exists>r. rec s = Some r"
    and rec_fail: "\<And>s s'. rec s = Some (Inr (False, s')) \<Longrightarrow> cell_value s' = cell_value s"
    and "c \<in> set (unassigned p st)"
    and "length (unassigned p st) \<le> m"
  shows "\<exists>r. try_candidates rec p c vs st = Some r"
  using assms(3,4)
proof (induction vs arbitrary: st)
  case Nil
  then show ?case by simp
next
  case (Cons v vs)
  let ?st1 = "st\<lparr>cell_value := (cell_value st)(c := Some v)\<rparr>"
  let ?st1' = "?st1\<lparr>recursive_calls := recursive_calls ?st1 + 1\<rparr>"
  let ?st2 = "?st1\<lparr>cell_value := (cell_value ?st1)(c := None)\<rparr>"
  have none: "cell_value st c = None" using Cons.prems(1) by (simp add: unassigned_mem)
  have v2: "cell_value ?st2 = cell_value st" using none by auto
  have next_ok: "\<exists>r. try_candidates rec p c vs s = Some r" if "cell_value s = cell_value st" for s
  proof (rule Cons.IH)
    show "c \<in> set (unassigned p s)" using that Cons.prems(1) by (simp add: unassigned_mem)
    show "length (unassigned p s) \<le> m" using that Cons.prems(2) unassigned_cong [of s st p] by simp
  qed
  show ?case
  proof (cases "puzzle_consistent p ?st1")
    case (Inl e)
    then show ?thesis by (simp add: Let_def)
  next
    case (Inr ok)
    show ?thesis
    proof (cases ok)
      case False
      with Inr next_ok [OF v2] show ?thesis by (simp add: Let_def)
    next
      case True
      have "length (unassigned p ?st1') < length (unassigned p st)"
        using Cons.prems(1) by (rule unassigned_assign_less) simp
      with Cons.prems(2) have "length (unassigned p ?st1') < m" by simp
      then obtain r1 where r1: "rec ?st1' = Some r1" using rec_total by blast
      show ?thesis
      proof (cases r1)
        case (Inl e)
        with True Inr r1 show ?thesis by (simp add: Let_def)
      next
        case r: (Inr bs)
        obtain b2 st2 where bs: "bs = (b2, st2)" by (cases bs)
        show ?thesis
        proof (cases b2)
          case True
          with \<open>ok\<close> Inr r1 r bs show ?thesis by (simp add: Let_def)
        next
          case False
          with r1 r bs have "cell_value st2 = cell_value ?st1'" using rec_fail by simp
          then have "cell_value (st2\<lparr>cell_value := (cell_value st2)(c := None)\<rparr>) = cell_value st"
            using none by auto
          from next_ok [OF this] False \<open>ok\<close> Inr r1 r bs show ?thesis by (simp add: Let_def)
        qed
      qed
    qed
  qed
qed

lemma solve_returns:
  "length (unassigned p st) < n \<Longrightarrow> \<exists>r. solve en n p st = Some r"
proof (induction n arbitrary: st)
  case 0
  then show ?case by simp
next
  case (Suc n)
  show ?case
  proof (cases "solve_order en p st")
    case (Inl e)
    then show ?thesis by simp
  next
    case (Inr ord)
    show ?thesis
    proof (cases ord)
      case Nil
      with Inr show ?thesis by (simp split: sum.splits)
    next
      case (Cons c rest)
      show ?thesis
      proof (cases "candidates en p st c")
        case (Inl e)
        with Cons Inr show ?thesis by simp
      next
        case s: (Inr s)
        have "c \<in> set (unassigned p st)"
          using solve_order_set(1) [OF Inr] Cons by auto
        moreover have "length (unassigned p st) \<le> n" using Suc.prems by simp
        moreover have "\<And>s s'. solve en n p s = Some (Inr (False, s')) \<Longrightarrow> cell_value s' = cell_value s"
          using solve_cases by fastforce
        ultimately have "\<exists>r. try_candidates (solve en n p) p c (en s) st = Some r"
          using Suc.IH by (intro try_candidates_returns [where m = n]) auto
        with s Cons Inr show ?thesis by simp
      qed
    qed
  qed
qed

lemma try_candidates_backtracks:
  assumes rec_mono: "\<And>s b s'. rec s = Some (Inr (b, s')) \<Longrightarrow> backtracks s \<le> backtracks s'"
    and "try_candidates rec p c vs st = Some (Inr (b, st'))"
  shows "backtracks st \<le> backtracks st' \<and> (\<not> b \<longrightarrow> backtracks st + 1 \<le> backtracks st')"
  using assms(2)
proof (induction vs arbitrary: st)
  case Nil
  then show ?case by auto
next
  case (Cons v vs)
  let ?st1 = "st\<lparr>cell_value := (cell_value st)(c := Some v)\<rparr>"
  let ?st1' = "?st1\<lparr>recursive_calls := recursive_calls ?st1 + 1\<rparr>"
  from Cons.prems obtain ok where ok: "puzzle_consistent p ?st1 = Inr ok"
    by (cases "puzzle_consistent p ?st1") (auto simp: Let_def)
  show ?case
  proof (cases ok)
    case False
    with ok Cons.prems Cons.IH [of "?st1\<lparr>cell_value := (cell_value ?st1)(c := None)\<rparr>"]
    show ?thesis by (simp add: Let_def)
  next
    case True
    with ok Cons.prems obtain r where r: "rec ?st1' = Some r"
      by (cases "rec ?st1'") (auto simp: Let_def)
    show ?thesis
    proof (cases r)
      case (Inl e)
      with True ok r Cons.prems show ?thesis by (simp add: Let_def)
    next
      case (Inr bs)
      obtain b2 st2 where bs: "bs = (b2, st2)" by (cases bs)
      from r Inr bs have m: "backtracks st \<le> backtracks st2"
        using rec_mono [of ?st1' b2 st2] by simp
      show ?thesis
      proof (cases b2)
        case True
        with \<open>ok\<close> ok r Inr bs Cons.prems m show ?thesis by (auto simp: Let_def)
      next
        case False
        with \<open>ok\<close> ok r Inr bs Cons.prems
        have "try_candidates rec p c vs (st2\<lparr>cell_value := (cell_value st2)(c := None)\<rparr>) = Some (Inr (b, st'))"
          by (simp add: Let_def)
        from Cons.IH [OF this] m show ?thesis by auto
      qed
    qed
  qed
qed

lemma solve_backtracks:
  "solve en n p st = Some (Inr (b, st')) \<Longrightarrow>
     backtracks st \<le> backtracks st' \<and>
     (\<not> b \<and> unassigned p st \<noteq> [] \<longrightarrow> backtracks st + 1 \<le> backtracks st')"
proof (induction n arbitrary: st b st')
  case 0
  then show ?case by simp
next
  case (Suc n)
  from Suc.prems obtain ord where ord: "solve_order en p st = Inr ord"
    by (cases "solve_order en p st") auto
  show ?case
  proof (cases ord)
    case Nil
    with solve_order_set(2) [OF ord] have "unassigned p st = []" by simp
    with Nil ord Suc.prems show ?thesis by (auto split: sum.splits)
  next
    case (Cons c rest)
    with ord Suc.prems obtain s where s: "candidates en p st c = Inr s"
      and run: "try_candidates (solve en n p) p c (en s) st = Some (Inr (b, st'))"
      by (cases "candidates en p st c") auto
    have "\<And>s b s'. solve en n p s = Some (Inr (b, s')) \<Longrightarrow> backtracks s \<le> backtracks s'"
      using Suc.IH by blast
    from try_candidates_backtracks [where rec = "solve en n p", OF this run]
    show ?thesis by simp
  qed
qed

section \<open>Runs on the example puzzles\<close>

text \<open>The enumeration in increasing order is one the interpreter may use.\<close>

lemma enumerates_sorted: "enumerates sorted_list_of_set"
  by (simp add: enumerates_def)

lemma returned_Inr:
  assumes "returned r = Some (Inr (b, x, y))"
  shows "\<exists>st. r = Some (Inr (b, st)) \<and> backtracks st = x \<and> recursive_calls st = y"
  using assms by (auto simp: returned_def split: option.splits sum.splits prod.splits)

lemma run_1x1: "returned (backtrack_solve sorted_list_of_set puzzle_1x1 fresh) = Some (Inr (True, 0, 1))"
  by code_simp

lemma run_unsat: "returned (backtrack_solve sorted_list_of_set puzzle_unsat fresh) = Some (Inr (False, 2, 1))"
  by code_simp

lemma run_2x2: "returned (backtrack_solve sorted_list_of_set puzzle_2x2 fresh) = Some (Inr (True, 0, 4))"
  by code_simp

lemma candidates_state_01:
  "candidates sorted_list_of_set puzzle_2x2 state_01 (0, 0) = Inr {1}"
  by code_simp

section \<open>The reductions\<close>

text \<open>
  Claim C3. For every constraint variant and every candidate set, \<^verbatim>\<open>reduce\<close> returns a
  subset of its input, in particular for the Uniqueness reduction in every assignment
  state of the sibling cells.

  \<^verbatim>\<open>reduce_unique\<close> does not: it returns the symmetric difference of the candidates
  and the assigned values, so an assigned value that is not among the candidates is
  added. In \<open>state_01\<close> the sibling cell (0, 1) of row 0 holds 2; from the candidates
  \<open>{1}\<close> the reduction returns \<open>{1, 2}\<close>.
\<close>

theorem reduce_unique_adds:
  "reduce sorted_list_of_set (UniquenessConstraint [(0, 0), (0, 1)]) state_01 {1} = Inr {1, 2}"
  by (auto simp add: reduce_unique_def symmetric_difference_def assigned_values_def assigned_def
      state_01_def fresh_def)

text \<open>
  Claim C4. For an \<^verbatim>\<open>AddConstraint\<close> with remainder = target - sum of the assigned
  values: with exactly one unassigned cell \<^verbatim>\<open>reduce_add\<close> returns \<open>{remainder}\<close> when
  the remainder is a candidate and the empty set otherwise; with more than one unassigned
  cell it returns exactly the candidates \<open>c\<close> with \<open>remainder - c > 0\<close>.
\<close>

theorem reduce_add_cases:
  fixes cs t st candidates
  defines "k \<equiv> AddConstraint cs t"
  defines "remainder \<equiv> t - sum_list (map (\<lambda>c. the (cell_value st c)) (filter (\<lambda>c. cell_value st c \<noteq> None) cs))"
  shows "(length (filter (\<lambda>c. cell_value st c = None) cs) = 1 \<longrightarrow>
           reduce en k st candidates = Inr (if remainder \<in> candidates then {remainder} else {}))
       \<and> (length (filter (\<lambda>c. cell_value st c = None) cs) > 1 \<longrightarrow>
           reduce en k st candidates = Inr {c \<in> candidates. remainder - c > 0})"
  by (simp add: k_def remainder_def reduce_add_def add_remainder_def add_total_def
      assigned_values_def assigned_def constraint_unassigned_def)

theorem reduce_add_cases_witness:
  "reduce sorted_list_of_set (AddConstraint [(0, 0), (0, 1)] 3) state_01 {1, 2} = Inr {1}
   \<and> reduce sorted_list_of_set (AddConstraint [(0, 0), (0, 1)] 3) state_01 {2} = Inr {}
   \<and> reduce sorted_list_of_set (AddConstraint [(0, 0), (0, 1)] 3) fresh {1, 2, 3} = Inr {1, 2}"
proof -
  have one: "length (filter (\<lambda>c. cell_value state_01 c = None) [(0, 0), (0, 1)]) = 1"
    by code_simp
  have two: "length (filter (\<lambda>c. cell_value fresh c = None) [(0, 0), (0, 1)]) > 1"
    by code_simp
  have r1: "3 - sum_list (map (\<lambda>c. the (cell_value state_01 c))
       (filter (\<lambda>c. cell_value state_01 c \<noteq> None) [(0, 0), (0, 1)])) = 1"
    by code_simp
  have r2: "3 - sum_list (map (\<lambda>c. the (cell_value fresh c))
       (filter (\<lambda>c. cell_value fresh c \<noteq> None) [(0, 0), (0, 1)])) = 3"
    by code_simp
  have s3: "{c \<in> {1, 2, 3}. 3 - c > (0::int)} = {1, 2}" by auto
  have a: "reduce sorted_list_of_set (AddConstraint [(0, 0), (0, 1)] 3) state_01 {1, 2} = Inr {1}"
    using reduce_add_cases [of state_01 "[(0, 0), (0, 1)]" sorted_list_of_set 3 "{1, 2}",
        THEN conjunct1, rule_format, OF one]
    unfolding r1 by simp
  have b: "reduce sorted_list_of_set (AddConstraint [(0, 0), (0, 1)] 3) state_01 {2} = Inr {}"
    using reduce_add_cases [of state_01 "[(0, 0), (0, 1)]" sorted_list_of_set 3 "{2}",
        THEN conjunct1, rule_format, OF one]
    unfolding r1 by simp
  have c: "reduce sorted_list_of_set (AddConstraint [(0, 0), (0, 1)] 3) fresh {1, 2, 3} = Inr {1, 2}"
    using reduce_add_cases [of fresh "[(0, 0), (0, 1)]" sorted_list_of_set 3 "{1, 2, 3}",
        THEN conjunct2, rule_format, OF two]
    unfolding r2 s3 by simp
  from a b c show ?thesis by (intro conjI)
qed

section \<open>The candidates stay inside the domain\<close>

text \<open>
  Claim C10. After \<^verbatim>\<open>initialize\<close> has set the domain of every cell of the puzzle to
  \<open>{1..N}\<close>, \<^verbatim>\<open>Cell.candidates\<close> returns a subset of \<open>{1..N}\<close> in every assignment
  state (the search never writes a domain, so every state it reaches has the domains of
  \<^verbatim>\<open>initialize\<close>), whatever the reductions return: the loop intersects the running
  set with each of them. In the witness the row reduction returns \<open>{1, 2}\<close> from
  \<open>{1}\<close>, as in \<open>reduce_unique_adds\<close>.
\<close>

theorem candidates_within_domain:
  assumes "c \<in> set (cells p)"
    and "cell_domain st' = cell_domain (initialize p st)"
    and "candidates en p st' c = Inr s"
  shows "s \<subseteq> {1..width p}"
proof -
  from assms(1,2) have "cell_domain st' c = {1..width p}"
    by (simp add: initialize_domain)
  with assms(3) show ?thesis
    using candidates_loop_subset [of en st' "cell_constraints p c" "cell_domain st' c" s]
    by (simp add: candidates_def)
qed

theorem candidates_within_domain_witness:
  "candidates sorted_list_of_set puzzle_2x2 state_01 (0, 0) = Inr {1}
   \<and> {1} \<subseteq> {1..width puzzle_2x2}"
proof -
  have "(0, 0) \<in> set (cells puzzle_2x2)" by (simp add: puzzle_2x2_def)
  moreover have "cell_domain state_01 = cell_domain (initialize puzzle_2x2 fresh)"
    by (simp add: state_01_def)
  ultimately have "{1} \<subseteq> {1..width puzzle_2x2}"
    using candidates_state_01 by (rule candidates_within_domain)
  with candidates_state_01 show ?thesis by simp
qed

section \<open>Failure undoes every assignment\<close>

text \<open>
  Claim C5. For a puzzle whose cells all start unassigned, if \<^verbatim>\<open>backtrack_solve\<close>
  returns success = false, then at return the value of every cell is \<^verbatim>\<open>None\<close> again.
  More is true: a failed search leaves the value of every cell as it found it.
\<close>

theorem backtrack_solve_failure_restores:
  assumes "\<forall>c \<in> set (cells p). cell_value st c = None"
    and "backtrack_solve en p st = Some (Inr (False, st'))"
  shows "cell_value st' = cell_value st \<and> (\<forall>c \<in> set (cells p). cell_value st' c = None)"
proof -
  from assms(2) have "cell_value st' = cell_value (initialize p (st\<lparr>backtracks := 0, recursive_calls := 0\<rparr>))"
    using solve_cases [of en "Suc (length (cells p))" p _ False st']
    by (simp add: backtrack_solve_def del: solve.simps)
  then have "cell_value st' = cell_value st" by (simp add: initialize_def)
  with assms(1) show ?thesis by simp
qed

theorem backtrack_solve_failure_restores_witness:
  "\<exists>st'. backtrack_solve sorted_list_of_set puzzle_unsat fresh = Some (Inr (False, st'))
     \<and> cell_value st' = cell_value fresh
     \<and> cell_value st' (0, 0) = None \<and> cell_value st' (0, 1) = None
     \<and> cell_value st' (1, 0) = None \<and> cell_value st' (1, 1) = None"
proof -
  from returned_Inr [OF run_unsat] obtain st'
    where run: "backtrack_solve sorted_list_of_set puzzle_unsat fresh = Some (Inr (False, st'))"
    by blast
  have "\<forall>c \<in> set (cells puzzle_unsat). cell_value fresh c = None"
    by (simp add: fresh_def)
  from backtrack_solve_failure_restores [OF this run]
  have "cell_value st' = cell_value fresh" by simp
  with run show ?thesis by (simp add: fresh_def)
qed

section \<open>Termination\<close>

text \<open>
  Claim C7. \<^verbatim>\<open>backtrack_solve\<close> terminates. A recursive call of \<^verbatim>\<open>solve\<close> is made
  after a cell that was unassigned has been assigned, so the number of unassigned cells
  of the puzzle is smaller in the call; a call with fewer unassigned cells than the
  allowed depth returns (a value or an exception), and the result of
  \<^verbatim>\<open>backtrack_solve\<close> is the same for every allowed depth above the number of cells
  of the puzzle: the recursion is never deeper than that.
\<close>

theorem backtrack_solve_terminates:
  "(\<exists>r. backtrack_solve en p st = Some r \<and>
      (\<forall>n. length (cells p) < n \<longrightarrow>
         solve en n p (initialize p (st\<lparr>backtracks := 0, recursive_calls := 0\<rparr>)) = Some r))
   \<and> (\<forall>s n. length (unassigned p s) < n \<longrightarrow> (\<exists>r. solve en n p s = Some r))
   \<and> (\<forall>s c v. c \<in> set (unassigned p s) \<longrightarrow>
        length (unassigned p (s\<lparr>cell_value := (cell_value s)(c := Some v)\<rparr>)) < length (unassigned p s))
   \<and> (\<forall>s. length (unassigned p s) \<le> length (cells p))"
proof -
  let ?st0 = "initialize p (st\<lparr>backtracks := 0, recursive_calls := 0\<rparr>)"
  have bound: "length (unassigned p s) \<le> length (cells p)" for s
    by (simp add: unassigned_def)
  have ret: "\<exists>r. solve en n p s = Some r" if "length (unassigned p s) < n" for s n
    using that by (rule solve_returns)
  have "length (unassigned p ?st0) < Suc (length (cells p))"
    using bound [of ?st0] by simp
  then obtain r where r: "solve en (Suc (length (cells p))) p ?st0 = Some r"
    using ret by blast
  have "solve en n p ?st0 = Some r" if "length (cells p) < n" for n
    using that r solve_fuel_mono [of "Suc (length (cells p))" n en p ?st0 r] by simp
  with r have first: "\<exists>r. backtrack_solve en p st = Some r \<and>
      (\<forall>n. length (cells p) < n \<longrightarrow> solve en n p ?st0 = Some r)"
    by (auto simp: backtrack_solve_def simp del: solve.simps)
  have dec: "length (unassigned p (s\<lparr>cell_value := (cell_value s)(c := Some v)\<rparr>)) < length (unassigned p s)"
    if "c \<in> set (unassigned p s)" for s c v
    using that by (rule unassigned_assign_less) simp
  show ?thesis
  proof (intro conjI allI impI)
    show "\<exists>r. backtrack_solve en p st = Some r \<and>
      (\<forall>n. length (cells p) < n \<longrightarrow> solve en n p ?st0 = Some r)"
      by (rule first)
  qed (simp_all add: ret dec bound)
qed

theorem backtrack_solve_terminates_witness:
  "\<exists>r. backtrack_solve sorted_list_of_set puzzle_2x2 fresh = Some r
     \<and> solve sorted_list_of_set 7 puzzle_2x2
         (initialize puzzle_2x2 (fresh\<lparr>backtracks := 0, recursive_calls := 0\<rparr>)) = Some r
     \<and> length (unassigned puzzle_2x2 (fresh\<lparr>cell_value := (cell_value fresh)((0, 0) := Some 1)\<rparr>))
         < length (unassigned puzzle_2x2 fresh)"
proof -
  have len: "length (cells puzzle_2x2) < 7" by (simp add: puzzle_2x2_def)
  have mem: "(0, 0) \<in> set (unassigned puzzle_2x2 fresh)"
    by (simp add: unassigned_def puzzle_2x2_def fresh_def)
  note t = backtrack_solve_terminates [of sorted_list_of_set puzzle_2x2 fresh]
  from t [THEN conjunct1] obtain r
    where r: "backtrack_solve sorted_list_of_set puzzle_2x2 fresh = Some r"
      and all: "\<forall>n. length (cells puzzle_2x2) < n \<longrightarrow>
         solve sorted_list_of_set n puzzle_2x2
           (initialize puzzle_2x2 (fresh\<lparr>backtracks := 0, recursive_calls := 0\<rparr>)) = Some r"
    by (elim conjE exE)
  note run = all [rule_format, OF len]
  note dec = t [THEN conjunct2, THEN conjunct2, THEN conjunct1, rule_format, OF mem, of 1]
  from r run dec show ?thesis by (intro exI [of _ r] conjI)
qed

end
